theory Spec2Isabelle
  imports Main "HOL-Library.AList" "HOL-Library.Sublist"
begin

section \<open>Schema trees and the Python operations used on them\<close>

text \<open>
  The schema handled by \<^verbatim>\<open>AbstractFileBasedSpec\<close> is a JSON-compatible Python value:
  \<^verbatim>\<open>None\<close>, booleans, integers, floats, strings, lists and dictionaries with string
  keys. A dictionary is an association list in insertion order; lookups go through
  \<open>map_of\<close>, an assignment \<^verbatim>\<open>d[k] = v\<close> is \<open>AList.update\<close> (the value is replaced in
  place when the key exists and appended otherwise) and \<^verbatim>\<open>d.pop(k)\<close> is \<open>AList.delete\<close>.
  A float is kept as mantissa and exponent; nothing below looks inside it.
\<close>

datatype json =
    JNull
  | JBool bool
  | JNum int
  | JFloat int int
  | JStr string
  | JList "json list"
  | JDict "(string \<times> json) list"

datatype py_error =
  KeyError | TypeError | IndexError | AttributeError | RecursionError | SystemError

fun bind_result :: "py_error + 'a \<Rightarrow> ('a \<Rightarrow> py_error + 'b) \<Rightarrow> py_error + 'b" where
  "bind_result (Inl e) f = Inl e"
| "bind_result (Inr x) f = f x"

text \<open>Integer subscripts: a \<^verbatim>\<open>bool\<close> is an \<^verbatim>\<open>int\<close> in Python, negative indices count from the end.\<close>

fun int_key :: "json \<Rightarrow> int option" where
  "int_key (JNum i) = Some i"
| "int_key (JBool b) = Some (if b then 1 else 0)"
| "int_key _ = None"

definition norm_index :: "'a list \<Rightarrow> int \<Rightarrow> int" where
  "norm_index xs i = (if i < 0 then int (length xs) + i else i)"

definition list_index :: "'a list \<Rightarrow> int \<Rightarrow> py_error + 'a" where
  "list_index xs i =
     (let j = norm_index xs i
      in if 0 \<le> j \<and> j < int (length xs) then Inr (xs ! nat j) else Inl IndexError)"

text \<open>
  \<^verbatim>\<open>x[k]\<close>. A dictionary raises \<^verbatim>\<open>KeyError\<close> for a missing key (every hashable key that is
  not a string is missing) and \<^verbatim>\<open>TypeError\<close> for an unhashable one; lists and strings
  take integer subscripts only; the other values are not subscriptable.
\<close>

fun getitem :: "json \<Rightarrow> json \<Rightarrow> py_error + json" where
  "getitem (JDict d) k =
     (case k of
        JStr s \<Rightarrow> (case map_of d s of None \<Rightarrow> Inl KeyError | Some v \<Rightarrow> Inr v)
      | JList _ \<Rightarrow> Inl TypeError
      | JDict _ \<Rightarrow> Inl TypeError
      | _ \<Rightarrow> Inl KeyError)"
| "getitem (JList xs) k =
     (case int_key k of None \<Rightarrow> Inl TypeError | Some i \<Rightarrow> list_index xs i)"
| "getitem (JStr s) k =
     (case int_key k of
        None \<Rightarrow> Inl TypeError
      | Some i \<Rightarrow> (case list_index s i of Inl e \<Rightarrow> Inl e | Inr c \<Rightarrow> Inr (JStr [c])))"
| "getitem _ k = Inl TypeError"

text \<open>
  \<^verbatim>\<open>k in x\<close> for a string \<open>k\<close>: key membership in a dictionary, element membership in a
  list, substring test in a string, \<^verbatim>\<open>TypeError\<close> otherwise.
\<close>

fun contains :: "string \<Rightarrow> json \<Rightarrow> py_error + bool" where
  "contains k (JDict d) = Inr (map_of d k \<noteq> None)"
| "contains k (JList xs) = Inr (JStr k \<in> set xs)"
| "contains k (JStr s) = Inr (sublist k s)"
| "contains k _ = Inl TypeError"

text \<open>
  \<^verbatim>\<open>x.pop(k)\<close> and \<^verbatim>\<open>x.pop(k, default)\<close> for a string \<open>k\<close>, returning the popped value and
  the container afterwards. \<^verbatim>\<open>list.pop\<close> rejects a string index and a second argument
  (\<^verbatim>\<open>TypeError\<close>); the other values have no \<^verbatim>\<open>pop\<close> (\<^verbatim>\<open>AttributeError\<close>).
\<close>

fun pop :: "json \<Rightarrow> string \<Rightarrow> py_error + (json \<times> json)" where
  "pop (JDict d) k =
     (case map_of d k of None \<Rightarrow> Inl KeyError | Some v \<Rightarrow> Inr (v, JDict (AList.delete k d)))"
| "pop (JList xs) k = Inl TypeError"
| "pop _ k = Inl AttributeError"

fun pop_default :: "json \<Rightarrow> string \<Rightarrow> json \<Rightarrow> py_error + (json \<times> json)" where
  "pop_default (JDict d) k dflt =
     (case map_of d k of None \<Rightarrow> Inr (dflt, JDict d) | Some v \<Rightarrow> Inr (v, JDict (AList.delete k d)))"
| "pop_default (JList xs) k dflt = Inl TypeError"
| "pop_default _ k dflt = Inl AttributeError"

text \<open>\<^verbatim>\<open>x[k] = v\<close> for a string \<open>k\<close>: only a dictionary accepts it.\<close>

fun setitem :: "json \<Rightarrow> string \<Rightarrow> json \<Rightarrow> py_error + json" where
  "setitem (JDict d) k v = Inr (JDict (AList.update k v d))"
| "setitem _ k v = Inl TypeError"

text \<open>
  \<^verbatim>\<open>for e in x\<close>: the elements of a list, the keys of a dictionary, the one-character
  strings of a string; the other values are not iterable.
\<close>

fun iter :: "json \<Rightarrow> py_error + json list" where
  "iter (JList xs) = Inr xs"
| "iter (JDict d) = Inr (map (\<lambda>kv. JStr (fst kv)) d)"
| "iter (JStr s) = Inr (map (\<lambda>c. JStr [c]) s)"
| "iter _ = Inl TypeError"

text \<open>
  The code mutates the tree in place. On values, a child obtained with \<open>getitem\<close> and then
  modified is stored back at the subscript it was read from; \<open>put_item\<close> and \<open>put_path\<close>
  do that and are only applied where the read succeeded.
\<close>

fun put_item :: "json \<Rightarrow> json \<Rightarrow> json \<Rightarrow> json" where
  "put_item (JDict d) k v = (case k of JStr s \<Rightarrow> JDict (AList.update s v d) | _ \<Rightarrow> JDict d)"
| "put_item (JList xs) k v =
     (case int_key k of None \<Rightarrow> JList xs | Some i \<Rightarrow> JList (xs[nat (norm_index xs i) := v]))"
| "put_item t k v = t"

fun get_path :: "json \<Rightarrow> json list \<Rightarrow> py_error + json" where
  "get_path t [] = Inr t"
| "get_path t (k # ks) = bind_result (getitem t k) (\<lambda>c. get_path c ks)"

fun put_path :: "json \<Rightarrow> json list \<Rightarrow> json \<Rightarrow> json" where
  "put_path t [] v = v"
| "put_path t (k # ks) v =
     (case getitem t k of Inl e \<Rightarrow> t | Inr c \<Rightarrow> put_item t k (put_path c ks v))"

section \<open>\<^verbatim>\<open>replace_enum_allOf_and_anyOf\<close>\<close>

text \<open>
  Lines 71 to 73: the body of the inner loop, on one \<^verbatim>\<open>object_property\<close>. The \<^verbatim>\<open>and\<close>
  evaluates its right operand only when \<^verbatim>\<open>"allOf" in object_property\<close> holds; line 72
  reads \<^verbatim>\<open>object_property["allOf"][0]\<close> a second time, with the same result.
\<close>

definition rewrite_field :: "json \<Rightarrow> py_error + json" where
  "rewrite_field object_property =
     bind_result (contains ''allOf'' object_property) (\<lambda>has_allOf.
       if \<not> has_allOf then Inr object_property
       else
         bind_result (getitem object_property (JStr ''allOf'')) (\<lambda>all_of.
         bind_result (getitem all_of (JNum 0)) (\<lambda>first.
         bind_result (contains ''enum'' first) (\<lambda>has_enum.
           if \<not> has_enum then Inr object_property
           else
             bind_result (getitem first (JStr ''enum'')) (\<lambda>enum.
             bind_result (setitem object_property ''enum'' enum) (\<lambda>p1.
             bind_result (pop p1 ''allOf'') (\<lambda>r. Inr (snd r))))))))"

text \<open>
  Lines 69 and 70: \<^verbatim>\<open>for key in format["properties"]\<close>, reading
  \<^verbatim>\<open>format["properties"][key]\<close> at each key.
\<close>

fun rewrite_props :: "json list \<Rightarrow> json \<Rightarrow> py_error + json" where
  "rewrite_props [] props = Inr props"
| "rewrite_props (key # keys) props =
     bind_result (getitem props key) (\<lambda>object_property.
     bind_result (rewrite_field object_property) (\<lambda>p.
       rewrite_props keys (put_item props key p)))"

definition rewrite_format :: "json \<Rightarrow> py_error + json" where
  "rewrite_format format =
     bind_result (getitem format (JStr ''properties'')) (\<lambda>props.
     bind_result (iter props) (\<lambda>keys.
     bind_result (rewrite_props keys props) (\<lambda>props'.
       Inr (put_item format (JStr ''properties'') props'))))"

text \<open>
  Line 68: \<^verbatim>\<open>for format in objects_to_check["additionalProperties"]["oneOf"]\<close>. Only the
  elements of a list are part of the tree; the keys of a dictionary and the characters
  of a string are temporaries (and the body raises on each of them).
\<close>

fun rewrite_formats :: "json list \<Rightarrow> py_error + json list" where
  "rewrite_formats [] = Inr []"
| "rewrite_formats (format # rest) =
     bind_result (rewrite_format format) (\<lambda>f.
     bind_result (rewrite_formats rest) (\<lambda>fs. Inr (f # fs)))"

definition rewrite_alternatives :: "json \<Rightarrow> py_error + json" where
  "rewrite_alternatives one_of =
     bind_result (iter one_of) (\<lambda>formats.
     bind_result (rewrite_formats formats) (\<lambda>formats'.
       Inr (case one_of of JList _ \<Rightarrow> JList formats' | _ \<Rightarrow> one_of)))"

text \<open>Lines 66 to 73, on the value \<^verbatim>\<open>objects_to_check\<close> read at line 65.\<close>

definition rewrite_format_node :: "json \<Rightarrow> py_error + json" where
  "rewrite_format_node objects_to_check =
     bind_result (contains ''additionalProperties'' objects_to_check) (\<lambda>present.
       if \<not> present then Inr objects_to_check
       else
         bind_result (getitem objects_to_check (JStr ''additionalProperties'')) (\<lambda>ap.
         bind_result (pop_default ap ''anyOf'' (JList [])) (\<lambda>r.
         bind_result (setitem (snd r) ''oneOf'' (fst r)) (\<lambda>ap'.
         bind_result (getitem ap' (JStr ''oneOf'')) (\<lambda>one_of.
         bind_result (rewrite_alternatives one_of) (\<lambda>one_of'.
           Inr (put_item objects_to_check (JStr ''additionalProperties'')
                  (put_item ap' (JStr ''oneOf'') one_of'))))))))"

definition stream_properties :: "json list" where
  "stream_properties = [JStr ''properties'', JStr ''streams'', JStr ''items'', JStr ''properties'']"

definition format_path :: "json list" where
  "format_path = stream_properties @ [JStr ''format'']"

text \<open>Lines 77 to 79 for one \<^verbatim>\<open>property_to_change\<close>: the right-hand side is evaluated first.\<close>

definition rename_anyOf :: "string \<Rightarrow> json \<Rightarrow> py_error + json" where
  "rename_anyOf property_to_change schema =
     bind_result (get_path schema (stream_properties @ [JStr property_to_change])) (\<lambda>node.
     bind_result (pop node ''anyOf'') (\<lambda>r.
     bind_result (setitem (snd r) ''oneOf'' (fst r)) (\<lambda>node'.
       Inr (put_path schema (stream_properties @ [JStr property_to_change]) node'))))"

fun rename_all :: "string list \<Rightarrow> json \<Rightarrow> py_error + json" where
  "rename_all [] schema = Inr schema"
| "rename_all (p # ps) schema = bind_result (rename_anyOf p schema) (rename_all ps)"

definition properties_to_change :: "string list" where
  "properties_to_change = [''primary_key'', ''input_schema'']"

definition replace_enum_allOf_and_anyOf :: "json \<Rightarrow> py_error + json" where
  "replace_enum_allOf_and_anyOf schema =
     bind_result (get_path schema format_path) (\<lambda>objects_to_check.
     bind_result (rewrite_format_node objects_to_check) (\<lambda>node.
       rename_all properties_to_change (put_path schema format_path node)))"

section \<open>\<^verbatim>\<open>add_legacy_format\<close>\<close>

definition legacy_format_options :: json where
  "legacy_format_options =
     JDict [(''title'', JStr ''Legacy Format''),
            (''required'', JList [JStr ''filetype'']),
            (''type'', JStr ''object''),
            (''properties'',
               JDict [(''filetype'', JDict [(''title'', JStr ''Filetype''), (''type'', JStr ''string'')])])]"

definition add_legacy_format :: "json \<Rightarrow> py_error + json" where
  "add_legacy_format schema =
     bind_result (get_path schema format_path) (\<lambda>csv_format_options.
     bind_result (get_path schema stream_properties) (\<lambda>props.
     bind_result
       (setitem props ''format'' (JDict [(''oneOf'', JList [csv_format_options, legacy_format_options])]))
       (\<lambda>props'. Inr (put_path schema stream_properties props'))))"

section \<open>The same operations on objects\<close>

text \<open>
  The code works in place on Python objects. Here a value is an immutable atom or a
  reference to a mutable object (a dictionary or a list) held in a heap; a heap is the
  list of the objects allocated so far and a reference is an index into it. A program
  takes the heap and returns its result, or the exception it raised, together with the
  heap it leaves. \<^verbatim>\<open>SystemError\<close> stands for a reference to no object, which Python never
  produces.
\<close>

datatype pval = PNull | PBool bool | PNum int | PFloat int int | PStr string | PRef nat

datatype pobj = ODict "(string \<times> pval) list" | OList "pval list"

type_synonym heap = "pobj list"

type_synonym 'a prog = "heap \<Rightarrow> (py_error + 'a) \<times> heap"

definition ret :: "'a \<Rightarrow> 'a prog" where
  "ret x h = (Inr x, h)"

definition raise :: "py_error \<Rightarrow> 'a prog" where
  "raise e h = (Inl e, h)"

definition bind_prog :: "'a prog \<Rightarrow> ('a \<Rightarrow> 'b prog) \<Rightarrow> 'b prog" where
  "bind_prog m f h = (case m h of (Inl e, h') \<Rightarrow> (Inl e, h') | (Inr x, h') \<Rightarrow> f x h')"

definition lift :: "py_error + 'a \<Rightarrow> 'a prog" where
  "lift r h = (r, h)"

text \<open>Reading, overwriting and creating an object.\<close>

definition deref :: "nat \<Rightarrow> pobj prog" where
  "deref a h = (if a < length h then (Inr (h ! a), h) else (Inl SystemError, h))"

definition assign :: "nat \<Rightarrow> pobj \<Rightarrow> unit prog" where
  "assign a obj h = (if a < length h then (Inr (), h[a := obj]) else (Inl SystemError, h))"

definition alloc :: "pobj \<Rightarrow> pval prog" where
  "alloc obj h = (Inr (PRef (length h)), h @ [obj])"

text \<open>The operations of the first section, on references.\<close>

fun pint_key :: "pval \<Rightarrow> int option" where
  "pint_key (PNum i) = Some i"
| "pint_key (PBool b) = Some (if b then 1 else 0)"
| "pint_key _ = None"

definition obj_getitem :: "pobj \<Rightarrow> pval \<Rightarrow> py_error + pval" where
  "obj_getitem obj k =
     (case obj of
        ODict d \<Rightarrow>
          (case k of
             PStr s \<Rightarrow> (case map_of d s of None \<Rightarrow> Inl KeyError | Some v \<Rightarrow> Inr v)
           | PRef _ \<Rightarrow> Inl TypeError
           | _ \<Rightarrow> Inl KeyError)
      | OList xs \<Rightarrow> (case pint_key k of None \<Rightarrow> Inl TypeError | Some i \<Rightarrow> list_index xs i))"

fun py_getitem :: "pval \<Rightarrow> pval \<Rightarrow> pval prog" where
  "py_getitem (PRef a) k = bind_prog (deref a) (\<lambda>obj. lift (obj_getitem obj k))"
| "py_getitem (PStr s) k =
     (case pint_key k of
        None \<Rightarrow> raise TypeError
      | Some i \<Rightarrow> (case list_index s i of Inl e \<Rightarrow> raise e | Inr c \<Rightarrow> ret (PStr [c])))"
| "py_getitem _ k = raise TypeError"

fun py_contains :: "string \<Rightarrow> pval \<Rightarrow> bool prog" where
  "py_contains k (PRef a) =
     bind_prog (deref a) (\<lambda>obj.
       ret (case obj of ODict d \<Rightarrow> map_of d k \<noteq> None | OList xs \<Rightarrow> PStr k \<in> set xs))"
| "py_contains k (PStr s) = ret (sublist k s)"
| "py_contains k _ = raise TypeError"

fun py_pop :: "pval \<Rightarrow> string \<Rightarrow> pval prog" where
  "py_pop (PRef a) k =
     bind_prog (deref a) (\<lambda>obj.
       case obj of
         ODict d \<Rightarrow>
           (case map_of d k of
              None \<Rightarrow> raise KeyError
            | Some v \<Rightarrow> bind_prog (assign a (ODict (AList.delete k d))) (\<lambda>_. ret v))
       | OList xs \<Rightarrow> raise TypeError)"
| "py_pop _ k = raise AttributeError"

fun py_pop_default :: "pval \<Rightarrow> string \<Rightarrow> pval \<Rightarrow> pval prog" where
  "py_pop_default (PRef a) k dflt =
     bind_prog (deref a) (\<lambda>obj.
       case obj of
         ODict d \<Rightarrow>
           (case map_of d k of
              None \<Rightarrow> ret dflt
            | Some v \<Rightarrow> bind_prog (assign a (ODict (AList.delete k d))) (\<lambda>_. ret v))
       | OList xs \<Rightarrow> raise TypeError)"
| "py_pop_default _ k dflt = raise AttributeError"

fun py_setitem :: "pval \<Rightarrow> string \<Rightarrow> pval \<Rightarrow> unit prog" where
  "py_setitem (PRef a) k v =
     bind_prog (deref a) (\<lambda>obj.
       case obj of
         ODict d \<Rightarrow> assign a (ODict (AList.update k v d))
       | OList xs \<Rightarrow> raise TypeError)"
| "py_setitem _ k v = raise TypeError"

fun py_iter :: "pval \<Rightarrow> pval list prog" where
  "py_iter (PRef a) =
     bind_prog (deref a) (\<lambda>obj.
       ret (case obj of OList xs \<Rightarrow> xs | ODict d \<Rightarrow> map (\<lambda>kv. PStr (fst kv)) d))"
| "py_iter (PStr s) = ret (map (\<lambda>c. PStr [c]) s)"
| "py_iter _ = raise TypeError"

text \<open>
  \<^verbatim>\<open>for x in xs\<close> over the elements read when the loop starts. The code never changes a
  list, and changes a dictionary it iterates only if that dictionary is one of its own
  values, which a schema, being finite and acyclic, excludes.
\<close>

fun for_each :: "'a list \<Rightarrow> ('a \<Rightarrow> unit prog) \<Rightarrow> unit prog" where
  "for_each [] body = ret ()"
| "for_each (x # xs) body = bind_prog (body x) (\<lambda>_. for_each xs body)"

fun py_get_path :: "pval \<Rightarrow> string list \<Rightarrow> pval prog" where
  "py_get_path v [] = ret v"
| "py_get_path v (k # ks) = bind_prog (py_getitem v (PStr k)) (\<lambda>c. py_get_path c ks)"

text \<open>Lines 65 to 80 and 90 to 100, statement by statement.\<close>

definition stream_properties_keys :: "string list" where
  "stream_properties_keys = [''properties'', ''streams'', ''items'', ''properties'']"

definition rewrite_field_in_place :: "pval \<Rightarrow> unit prog" where
  "rewrite_field_in_place object_property =
     bind_prog (py_contains ''allOf'' object_property) (\<lambda>has_allOf.
       if \<not> has_allOf then ret ()
       else
         bind_prog (py_get_path object_property [''allOf'']) (\<lambda>all_of.
         bind_prog (py_getitem all_of (PNum 0)) (\<lambda>first.
         bind_prog (py_contains ''enum'' first) (\<lambda>has_enum.
           if \<not> has_enum then ret ()
           else
             bind_prog (py_get_path object_property [''allOf'']) (\<lambda>all_of'.
             bind_prog (py_getitem all_of' (PNum 0)) (\<lambda>first'.
             bind_prog (py_getitem first' (PStr ''enum'')) (\<lambda>enum.
             bind_prog (py_setitem object_property ''enum'' enum) (\<lambda>_.
             bind_prog (py_pop object_property ''allOf'') (\<lambda>_. ret ())))))))))"

definition rewrite_format_in_place :: "pval \<Rightarrow> unit prog" where
  "rewrite_format_in_place format =
     bind_prog (py_getitem format (PStr ''properties'')) (\<lambda>props.
     bind_prog (py_iter props) (\<lambda>keys.
       for_each keys (\<lambda>key.
         bind_prog (py_getitem format (PStr ''properties'')) (\<lambda>props'.
         bind_prog (py_getitem props' key) rewrite_field_in_place))))"

definition rename_anyOf_in_place :: "pval \<Rightarrow> string \<Rightarrow> unit prog" where
  "rename_anyOf_in_place schema property_to_change =
     bind_prog (py_get_path schema (stream_properties_keys @ [property_to_change])) (\<lambda>node.
     bind_prog (py_pop node ''anyOf'') (\<lambda>any_of.
     bind_prog (py_get_path schema (stream_properties_keys @ [property_to_change])) (\<lambda>node'.
       py_setitem node' ''oneOf'' any_of)))"

definition replace_enum_allOf_and_anyOf_in_place :: "pval \<Rightarrow> pval prog" where
  "replace_enum_allOf_and_anyOf_in_place schema =
     bind_prog (py_get_path schema (stream_properties_keys @ [''format''])) (\<lambda>objects_to_check.
     bind_prog (py_contains ''additionalProperties'' objects_to_check) (\<lambda>present.
     bind_prog
       (if present then
          bind_prog (py_getitem objects_to_check (PStr ''additionalProperties'')) (\<lambda>ap.
          bind_prog (alloc (OList [])) (\<lambda>dflt.
          bind_prog (py_pop_default ap ''anyOf'' dflt) (\<lambda>any_of.
          bind_prog (py_getitem objects_to_check (PStr ''additionalProperties'')) (\<lambda>ap'.
          bind_prog (py_setitem ap' ''oneOf'' any_of) (\<lambda>_.
          bind_prog (py_get_path objects_to_check [''additionalProperties'', ''oneOf'']) (\<lambda>one_of.
          bind_prog (py_iter one_of) (\<lambda>formats.
            for_each formats rewrite_format_in_place)))))))
        else ret ())
       (\<lambda>_.
     bind_prog (for_each properties_to_change (rename_anyOf_in_place schema)) (\<lambda>_.
       ret schema))))"

definition add_legacy_format_in_place :: "pval \<Rightarrow> pval prog" where
  "add_legacy_format_in_place schema =
     bind_prog (alloc (OList [PStr ''filetype''])) (\<lambda>required.
     bind_prog (alloc (ODict [(''title'', PStr ''Filetype''), (''type'', PStr ''string'')])) (\<lambda>filetype.
     bind_prog (alloc (ODict [(''filetype'', filetype)])) (\<lambda>props.
     bind_prog (alloc (ODict [(''title'', PStr ''Legacy Format''), (''required'', required),
                              (''type'', PStr ''object''), (''properties'', props)])) (\<lambda>legacy_format_options.
     bind_prog (py_get_path schema (stream_properties_keys @ [''format''])) (\<lambda>csv_format_options.
     bind_prog (alloc (OList [csv_format_options, legacy_format_options])) (\<lambda>members.
     bind_prog (alloc (ODict [(''oneOf'', members)])) (\<lambda>union_format.
     bind_prog (py_get_path schema stream_properties_keys) (\<lambda>node.
     bind_prog (py_setitem node ''format'' union_format) (\<lambda>_.
       ret schema)))))))))"

text \<open>
  \<^verbatim>\<open>copy.deepcopy\<close>: an atom is returned as it is; an object already copied is looked up
  in the memo; otherwise an empty object is created, entered in the memo and filled
  with the copies of the elements. The first argument bounds the depth of the recursion
  (Python's recursion limit).
\<close>

type_synonym memo = "(nat \<times> nat) list"

fun deepcopy :: "nat \<Rightarrow> pval \<Rightarrow> memo \<Rightarrow> (pval \<times> memo) prog"
  and copy_items :: "nat \<Rightarrow> pval list \<Rightarrow> nat \<Rightarrow> memo \<Rightarrow> memo prog"
  and copy_entries :: "nat \<Rightarrow> (string \<times> pval) list \<Rightarrow> nat \<Rightarrow> memo \<Rightarrow> memo prog"
where
  "deepcopy 0 x memo = raise RecursionError"
| "deepcopy (Suc n) x memo =
     (case x of
        PRef a \<Rightarrow>
          (case map_of memo a of
             Some y \<Rightarrow> ret (PRef y, memo)
           | None \<Rightarrow>
               bind_prog (deref a) (\<lambda>obj.
                 case obj of
                   OList xs \<Rightarrow>
                     bind_prog (alloc (OList [])) (\<lambda>y.
                       case y of
                         PRef b \<Rightarrow> bind_prog (copy_items n xs b ((a, b) # memo)) (\<lambda>memo'. ret (y, memo'))
                       | _ \<Rightarrow> raise SystemError)
                 | ODict d \<Rightarrow>
                     bind_prog (alloc (ODict [])) (\<lambda>y.
                       case y of
                         PRef b \<Rightarrow> bind_prog (copy_entries n d b ((a, b) # memo)) (\<lambda>memo'. ret (y, memo'))
                       | _ \<Rightarrow> raise SystemError)))
      | _ \<Rightarrow> ret (x, memo))"
| "copy_items n [] b memo = ret memo"
| "copy_items n (x # xs) b memo =
     bind_prog (deepcopy n x memo) (\<lambda>r.
     bind_prog (deref b) (\<lambda>obj.
     bind_prog (case obj of OList ys \<Rightarrow> assign b (OList (ys @ [fst r])) | ODict _ \<Rightarrow> raise SystemError) (\<lambda>_.
       copy_items n xs b (snd r))))"
| "copy_entries n [] b memo = ret memo"
| "copy_entries n (kv # kvs) b memo =
     bind_prog (deepcopy n (snd kv) memo) (\<lambda>r.
     bind_prog (py_setitem (PRef b) (fst kv) (fst r)) (\<lambda>_.
       copy_entries n kvs b (snd r)))"

text \<open>
  Lines 48 to 54. \<^verbatim>\<open>super().schema()\<close> is pydantic's and \<^verbatim>\<open>expand_refs\<close> is not part of
  the file: the raw schema is the argument \<open>raw\<close> and \<^verbatim>\<open>expand_refs\<close> is a parameter.
\<close>

definition schema :: "nat \<Rightarrow> (pval \<Rightarrow> unit prog) \<Rightarrow> pval \<Rightarrow> pval prog" where
  "schema recursion_limit expand_refs raw =
     bind_prog (deepcopy recursion_limit raw []) (\<lambda>r.
     bind_prog (expand_refs (fst r)) (\<lambda>_.
     bind_prog (replace_enum_allOf_and_anyOf_in_place (fst r)) (\<lambda>_.
     bind_prog (add_legacy_format_in_place (fst r)) (\<lambda>_.
       ret (fst r)))))"

section \<open>Vocabulary of the properties\<close>





text \<open>
  A schema of the shape pydantic generates, used to evaluate the functions: one CSV
  alternative with a plain field, an enum field written with \<^verbatim>\<open>allOf\<close> and a field
  whose \<^verbatim>\<open>allOf\<close> holds no enum, and the two union-typed stream fields.
\<close>

definition stream_tree :: "json \<Rightarrow> json \<Rightarrow> json \<Rightarrow> json" where
  "stream_tree fmt pk isch =
     JDict [(''title'', JStr ''Spec''), (''type'', JStr ''object''),
       (''properties'', JDict [(''streams'', JDict [(''type'', JStr ''array''),
          (''items'', JDict [(''properties'',
             JDict [(''format'', fmt), (''primary_key'', pk), (''input_schema'', isch)])])])])]"

definition csv_in :: json where
  "csv_in = JDict [(''title'', JStr ''CsvFormat''),
     (''properties'', JDict [
        (''delimiter'', JDict [(''title'', JStr ''Delimiter''), (''type'', JStr ''string'')]),
        (''quoting'', JDict [(''allOf'', JList [JDict [(''enum'', JList [JStr ''a'', JStr ''b''])],
                                               JDict [(''title'', JStr ''X'')]])]),
        (''encoding'', JDict [(''title'', JStr ''Encoding''), (''allOf'', JList [JDict [(''type'', JStr ''string'')]])])])]"

definition csv_out :: json where
  "csv_out = JDict [(''title'', JStr ''CsvFormat''),
     (''properties'', JDict [
        (''delimiter'', JDict [(''title'', JStr ''Delimiter''), (''type'', JStr ''string'')]),
        (''quoting'', JDict [(''enum'', JList [JStr ''a'', JStr ''b''])]),
        (''encoding'', JDict [(''title'', JStr ''Encoding''), (''allOf'', JList [JDict [(''type'', JStr ''string'')]])])])]"

definition union_in :: json where
  "union_in = JDict [(''anyOf'', JList [JDict [(''type'', JStr ''string'')], JDict [(''type'', JStr ''array'')]])]"

definition union_out :: json where
  "union_out = JDict [(''oneOf'', JList [JDict [(''type'', JStr ''string'')], JDict [(''type'', JStr ''array'')]])]"

definition example_in :: json where
  "example_in = stream_tree
     (JDict [(''type'', JStr ''object''), (''additionalProperties'', JDict [(''anyOf'', JList [csv_in])])])
     union_in union_in"

definition example_out :: json where
  "example_out = stream_tree
     (JDict [(''type'', JStr ''object''), (''additionalProperties'', JDict [(''oneOf'', JList [csv_out])])])
     union_out union_out"





definition required_format :: json where
  "required_format = JDict [(''type'', JStr ''object''), (''required'', JList [JStr ''filetype''])]"










text \<open>
  Confinement above an address \<open>n\<close>: a value is above \<open>n\<close> when it is an atom or refers
  to an address from \<open>n\<close> on, a heap is a zone above \<open>n\<close> when the objects from \<open>n\<close> on hold
  such values only, and a program is confined above \<open>n\<close> when, started in a zone, it
  leaves a zone, leaves the objects below \<open>n\<close> as they were and returns a result that
  satisfies \<open>Q\<close>.
\<close>

definition zval :: "nat \<Rightarrow> pval \<Rightarrow> bool" where
  "zval n v = (case v of PRef a \<Rightarrow> n \<le> a | _ \<Rightarrow> True)"

definition obj_vals :: "pobj \<Rightarrow> pval set" where
  "obj_vals obj = (case obj of ODict d \<Rightarrow> snd ` set d | OList xs \<Rightarrow> set xs)"

definition zobj :: "nat \<Rightarrow> pobj \<Rightarrow> bool" where
  "zobj n obj = (\<forall>v \<in> obj_vals obj. zval n v)"

definition zone :: "nat \<Rightarrow> heap \<Rightarrow> bool" where
  "zone n h = (n \<le> length h \<and> (\<forall>a. n \<le> a \<longrightarrow> a < length h \<longrightarrow> zobj n (h ! a)))"

definition confined :: "nat \<Rightarrow> 'a prog \<Rightarrow> ('a \<Rightarrow> bool) \<Rightarrow> bool" where
  "confined n m Q =
     (\<forall>h. zone n h \<longrightarrow>
        (case m h of (r, h') \<Rightarrow>
           zone n h' \<and> take n h' = take n h \<and> (case r of Inl e \<Rightarrow> True | Inr x \<Rightarrow> Q x)))"

text \<open>Building the objects of a tree, and reading the tree back from a reference, to a depth.\<close>

fun store :: "json \<Rightarrow> pval prog"
  and store_items :: "json list \<Rightarrow> pval list prog"
  and store_entries :: "(string \<times> json) list \<Rightarrow> (string \<times> pval) list prog"
where
  "store JNull = ret PNull"
| "store (JBool b) = ret (PBool b)"
| "store (JNum i) = ret (PNum i)"
| "store (JFloat m e) = ret (PFloat m e)"
| "store (JStr s) = ret (PStr s)"
| "store (JList ts) = bind_prog (store_items ts) (\<lambda>vs. alloc (OList vs))"
| "store (JDict kts) = bind_prog (store_entries kts) (\<lambda>kvs. alloc (ODict kvs))"
| "store_items [] = ret []"
| "store_items (t # ts) = bind_prog (store t) (\<lambda>v. bind_prog (store_items ts) (\<lambda>vs. ret (v # vs)))"
| "store_entries [] = ret []"
| "store_entries (kt # kts) =
     bind_prog (store (snd kt)) (\<lambda>v. bind_prog (store_entries kts) (\<lambda>kvs. ret ((fst kt, v) # kvs)))"

fun load :: "nat \<Rightarrow> heap \<Rightarrow> pval \<Rightarrow> json option" where
  "load 0 h v = None"
| "load (Suc n) h v =
     (case v of
        PNull \<Rightarrow> Some JNull
      | PBool b \<Rightarrow> Some (JBool b)
      | PNum i \<Rightarrow> Some (JNum i)
      | PFloat m e \<Rightarrow> Some (JFloat m e)
      | PStr s \<Rightarrow> Some (JStr s)
      | PRef a \<Rightarrow>
          if a < length h then
            (case h ! a of
               OList xs \<Rightarrow> map_option JList (those (map (load n h) xs))
             | ODict d \<Rightarrow>
                 map_option JDict (those (map (\<lambda>kv. map_option (Pair (fst kv)) (load n h (snd kv))) d)))
          else None)"

text \<open>\<^verbatim>\<open>expand_refs\<close> on a schema that holds no reference, and a small schema as objects.\<close>

definition no_refs :: "pval \<Rightarrow> unit prog" where
  "no_refs v = ret ()"

definition small_tree :: json where
  "small_tree = stream_tree (JDict [(''type'', JStr ''object'')])
     (JDict [(''anyOf'', JList [])]) (JDict [(''anyOf'', JList [])])"

definition small_heap :: heap where
  "small_heap =
    [ODict [(''type'', PStr ''object'')],
     OList [],
     ODict [(''anyOf'', PRef 1)],
     OList [],
     ODict [(''anyOf'', PRef 3)],
     ODict [(''format'', PRef 0), (''primary_key'', PRef 2), (''input_schema'', PRef 4)],
     ODict [(''properties'', PRef 5)],
     ODict [(''type'', PStr ''array''), (''items'', PRef 6)],
     ODict [(''streams'', PRef 7)],
     ODict [(''title'', PStr ''Spec''), (''type'', PStr ''object''), (''properties'', PRef 8)]]"

text \<open>The objects a value leads to, and heaps and values without dangling references.\<close>

definition memo_ok :: "nat \<Rightarrow> memo \<Rightarrow> bool" where
  "memo_ok n memo = (\<forall>ab \<in> set memo. n \<le> snd ab)"

inductive reachable :: "heap \<Rightarrow> pval \<Rightarrow> nat \<Rightarrow> bool" for h :: heap where
  root: "reachable h (PRef a) a"
| step: "reachable h v a \<Longrightarrow> a < length h \<Longrightarrow> PRef b \<in> obj_vals (h ! a) \<Longrightarrow> reachable h v b"

definition valid_val :: "heap \<Rightarrow> pval \<Rightarrow> bool" where
  "valid_val h v = (case v of PRef b \<Rightarrow> b < length h | _ \<Rightarrow> True)"

definition closed :: "heap \<Rightarrow> bool" where
  "closed h = (\<forall>a < length h. \<forall>v \<in> obj_vals (h ! a). valid_val h v)"

definition small_result :: json where
  "small_result = stream_tree
     (JDict [(''oneOf'', JList [JDict [(''type'', JStr ''object'')], legacy_format_options])])
     (JDict [(''oneOf'', JList [])]) (JDict [(''oneOf'', JList [])])"

section \<open>The result monad and paths\<close>

lemma bind_result_Inr_iff:
  "bind_result m f = Inr y \<longleftrightarrow> (\<exists>x. m = Inr x \<and> f x = Inr y)"
  by (cases m) simp_all

lemma bind_result_Inl_iff:
  "bind_result m f = Inl e \<longleftrightarrow> m = Inl e \<or> (\<exists>x. m = Inr x \<and> f x = Inl e)"
  by (cases m) simp_all

lemma getitem_str_Inr:
  "getitem t (JStr k) = Inr v \<longleftrightarrow> (\<exists>d. t = JDict d \<and> map_of d k = Some v)"
  by (cases t) (auto split: option.splits)

lemma getitem_dict_str [simp]:
  "getitem (JDict d) (JStr k) = (case map_of d k of None \<Rightarrow> Inl KeyError | Some v \<Rightarrow> Inr v)"
  by simp

lemma list_index_nat:
  "list_index xs (int i) = (if i < length xs then Inr (xs ! i) else Inl IndexError)"
  by (simp add: list_index_def norm_index_def)

lemma getitem_list_nat:
  "getitem (JList xs) (JNum (int i)) = (if i < length xs then Inr (xs ! i) else Inl IndexError)"
  by (simp add: list_index_nat)

lemma getitem_put_item_str:
  "getitem t (JStr k) = Inr c \<Longrightarrow> getitem (put_item t (JStr k) v) (JStr k) = Inr v"
  by (auto simp: getitem_str_Inr update_conv')

lemma getitem_put_item_other:
  "k \<noteq> k' \<Longrightarrow> getitem (put_item t (JStr k) v) (JStr k') = getitem t (JStr k')"
  by (cases t) (auto simp: update_conv' split: option.splits)

lemma get_path_append:
  "get_path t (ks @ ks') = bind_result (get_path t ks) (\<lambda>c. get_path c ks')"
proof (induction ks arbitrary: t)
  case Nil
  show ?case by simp
next
  case (Cons k ks)
  show ?case by (cases "getitem t k") (simp_all add: Cons.IH)
qed

lemma get_put_path_same:
  "get_path t (map JStr ks) = Inr c \<Longrightarrow>
   get_path (put_path t (map JStr ks) v) (map JStr ks @ rest) = get_path v rest"
proof (induction ks arbitrary: t)
  case Nil
  show ?case by simp
next
  case (Cons k ks)
  from Cons.prems obtain c' where c': "getitem t (JStr k) = Inr c'" and rest: "get_path c' (map JStr ks) = Inr c"
    by (auto simp: bind_result_Inr_iff)
  show ?case using c' Cons.IH [OF rest] by (simp add: getitem_put_item_str)
qed

lemma get_put_path_sibling:
  "k \<noteq> k' \<Longrightarrow>
   get_path (put_path t (map JStr ks @ [JStr k]) v) (map JStr ks @ JStr k' # rest) =
   get_path t (map JStr ks @ JStr k' # rest)"
proof (induction ks arbitrary: t)
  case Nil
  then show ?case by (cases "getitem t (JStr k)") (simp_all add: getitem_put_item_other)
next
  case (Cons a ks)
  show ?case
  proof (cases "getitem t (JStr a)")
    case (Inl e)
    then show ?thesis by simp
  next
    case (Inr c)
    then show ?thesis using Cons.IH [OF Cons.prems, of c] by (simp add: getitem_put_item_str)
  qed
qed

section \<open>The rewrite of one field\<close>

lemma rewrite_field_no_allOf:
  "contains ''allOf'' f = Inr False \<Longrightarrow> rewrite_field f = Inr f"
  by (simp add: rewrite_field_def)






section \<open>The loops over fields and alternatives\<close>














section \<open>The stream-level fields and the whole call\<close>

lemma stream_properties_keys:
  "stream_properties = map JStr [''properties'', ''streams'', ''items'', ''properties'']"
  by (simp add: stream_properties_def)

lemma format_path_keys:
  "format_path = map JStr [''properties'', ''streams'', ''items'', ''properties'', ''format'']"
  by (simp add: format_path_def stream_properties_def)

lemma stream_child_keys:
  "stream_properties @ [JStr p] = map JStr [''properties'', ''streams'', ''items'', ''properties'', p]"
  by (simp add: stream_properties_def)

lemma put_stream_child_same:
  assumes "get_path t (stream_properties @ [JStr p]) = Inr c"
  shows "get_path (put_path t (stream_properties @ [JStr p]) v) (stream_properties @ JStr p # rest) =
         get_path v rest"
  using get_put_path_same [of t "[''properties'', ''streams'', ''items'', ''properties'', p]" c v rest] assms
  by (simp add: stream_properties_def)

lemma put_stream_child_other:
  assumes "p \<noteq> p'"
  shows "get_path (put_path t (stream_properties @ [JStr p]) v) (stream_properties @ JStr p' # rest) =
         get_path t (stream_properties @ JStr p' # rest)"
  using get_put_path_sibling [OF assms, of t "[''properties'', ''streams'', ''items'', ''properties'']" v rest]
  by (simp add: stream_properties_def)

lemma rename_anyOf_cases:
  assumes "rename_anyOf p s = Inr s'"
  shows "\<exists>d v. get_path s (stream_properties @ [JStr p]) = Inr (JDict d) \<and> map_of d ''anyOf'' = Some v \<and>
           s' = put_path s (stream_properties @ [JStr p])
                  (JDict (AList.update ''oneOf'' v (AList.delete ''anyOf'' d)))"
proof -
  from assms obtain node r node' where
    node: "get_path s (stream_properties @ [JStr p]) = Inr node" and
    r: "pop node ''anyOf'' = Inr r" and
    node': "setitem (snd r) ''oneOf'' (fst r) = Inr node'" and
    s': "s' = put_path s (stream_properties @ [JStr p]) node'"
    by (auto simp: rename_anyOf_def bind_result_Inr_iff)
  from r obtain d v where "node = JDict d" "map_of d ''anyOf'' = Some v"
    "r = (v, JDict (AList.delete ''anyOf'' d))"
    by (cases node) (auto split: option.splits)
  with node node' s' show ?thesis by auto
qed

lemma rename_anyOf_other:
  assumes "rename_anyOf p s = Inr s'" and "p \<noteq> p'"
  shows "get_path s' (stream_properties @ JStr p' # rest) = get_path s (stream_properties @ JStr p' # rest)"
  using rename_anyOf_cases [OF assms(1)] put_stream_child_other [OF assms(2)] by auto


lemma replace_steps:
  assumes "replace_enum_allOf_and_anyOf t = Inr t'"
  shows "\<exists>otc otc' s1. get_path t format_path = Inr otc \<and> rewrite_format_node otc = Inr otc' \<and>
           rename_anyOf ''primary_key'' (put_path t format_path otc') = Inr s1 \<and>
           rename_anyOf ''input_schema'' s1 = Inr t'"
  using assms
  by (auto simp: replace_enum_allOf_and_anyOf_def properties_to_change_def bind_result_Inr_iff)

lemma replace_format:
  assumes "replace_enum_allOf_and_anyOf t = Inr t'"
  shows "\<exists>otc otc'. get_path t format_path = Inr otc \<and> rewrite_format_node otc = Inr otc' \<and>
           (\<forall>rest. get_path t' (format_path @ rest) = get_path otc' rest)"
proof -
  from replace_steps [OF assms] obtain otc otc' s1 where
    otc: "get_path t format_path = Inr otc" and otc': "rewrite_format_node otc = Inr otc'" and
    s1: "rename_anyOf ''primary_key'' (put_path t format_path otc') = Inr s1" and
    t': "rename_anyOf ''input_schema'' s1 = Inr t'"
    by blast
  have "get_path t' (format_path @ rest) = get_path otc' rest" for rest
  proof -
    have "get_path t' (format_path @ rest) = get_path s1 (format_path @ rest)"
      using rename_anyOf_other [OF t', of "''format''" rest] by (simp add: format_path_def)
    also have "\<dots> = get_path (put_path t format_path otc') (format_path @ rest)"
      using rename_anyOf_other [OF s1, of "''format''" rest] by (simp add: format_path_def)
    also have "\<dots> = get_path otc' rest"
      using put_stream_child_same [of t "''format''" otc otc' rest] otc by (simp add: format_path_def)
    finally show ?thesis .
  qed
  with otc otc' show ?thesis by blast
qed

lemmas model_defs = replace_enum_allOf_and_anyOf_def rewrite_format_node_def rewrite_alternatives_def
  rewrite_format_def rewrite_field_def rename_anyOf_def properties_to_change_def
  format_path_def stream_properties_def list_index_def norm_index_def

lemmas example_defs = example_in_def example_out_def stream_tree_def csv_in_def csv_out_def
  union_in_def union_out_def






lemma stream_properties_of_format:
  assumes "get_path t format_path = Inr F"
  shows "\<exists>d. get_path t stream_properties = Inr (JDict d) \<and> map_of d ''format'' = Some F"
  using assms by (auto simp: format_path_def get_path_append bind_result_Inr_iff getitem_str_Inr)

lemma add_legacy_format_result:
  assumes "get_path t format_path = Inr F"
  shows "add_legacy_format t =
           Inr (put_path t format_path (JDict [(''oneOf'', JList [F, legacy_format_options])]))"
proof -
  from stream_properties_of_format [OF assms] obtain d where
    d: "get_path t stream_properties = Inr (JDict d)" and F: "map_of d ''format'' = Some F"
    by blast
  have "put_path t (stream_properties @ ks) v =
        put_path t stream_properties (put_path (JDict d) ks v)" for ks v
    using d by (auto simp: stream_properties_def bind_result_Inr_iff getitem_str_Inr)
  from this [of "[JStr ''format'']"] assms d F show ?thesis
    by (simp add: add_legacy_format_def format_path_def)
qed











section \<open>Confinement of the in-place code\<close>

lemma confinedI:
  assumes "\<And>h r h'. zone n h \<Longrightarrow> m h = (r, h') \<Longrightarrow>
             zone n h' \<and> take n h' = take n h \<and> (\<forall>x. r = Inr x \<longrightarrow> Q x)"
  shows "confined n m Q"
  unfolding confined_def
proof (intro allI impI)
  fix h assume z: "zone n h"
  obtain r h' where m: "m h = (r, h')" by (cases "m h")
  from assms [OF z m] m show "case m h of (r, h') \<Rightarrow>
           zone n h' \<and> take n h' = take n h \<and> (case r of Inl e \<Rightarrow> True | Inr x \<Rightarrow> Q x)"
    by (cases r) auto
qed

lemma confinedD:
  assumes "confined n m Q" and "zone n h" and "m h = (r, h')"
  shows "zone n h'" and "take n h' = take n h" and "r = Inr x \<Longrightarrow> Q x"
  using assms unfolding confined_def by (auto split: prod.splits sum.splits)

lemma confined_weaken:
  assumes "confined n m Q" and "\<And>x. Q x \<Longrightarrow> R x"
  shows "confined n m R"
  using assms unfolding confined_def by (fastforce split: prod.splits sum.splits)

lemma confined_ret: "Q x \<Longrightarrow> confined n (ret x) Q"
  by (simp add: confined_def ret_def)

lemma confined_raise: "confined n (raise e) Q"
  by (simp add: confined_def raise_def)

lemma confined_lift: "(\<And>x. r = Inr x \<Longrightarrow> Q x) \<Longrightarrow> confined n (lift r) Q"
  by (cases r) (simp_all add: confined_def lift_def)

lemma confined_bind:
  assumes "confined n m Q" and "\<And>x. Q x \<Longrightarrow> confined n (f x) R"
  shows "confined n (bind_prog m f) R"
proof (rule confinedI)
  fix h r h'
  assume z: "zone n h" and run: "bind_prog m f h = (r, h')"
  obtain r1 h1 where m: "m h = (r1, h1)" by (cases "m h")
  note m1 = confinedD [OF assms(1) z m]
  show "zone n h' \<and> take n h' = take n h \<and> (\<forall>x. r = Inr x \<longrightarrow> R x)"
  proof (cases r1)
    case (Inl e)
    with run m m1 show ?thesis by (auto simp: bind_prog_def)
  next
    case (Inr x)
    with run m have f: "f x h1 = (r, h')" by (simp add: bind_prog_def)
    from m1(3) [OF Inr] have "confined n (f x) R" by (rule assms(2))
    from confinedD [OF this m1(1) f] m1(2) show ?thesis by auto
  qed
qed

lemma confined_if:
  assumes "b \<Longrightarrow> confined n m Q" and "\<not> b \<Longrightarrow> confined n m' Q"
  shows "confined n (if b then m else m') Q"
  using assms by simp

lemma confined_for_each:
  assumes "\<And>x. x \<in> set xs \<Longrightarrow> confined n (body x) (\<lambda>_. True)"
  shows "confined n (for_each xs body) (\<lambda>_. True)"
  using assms
proof (induction xs)
  case Nil
  show ?case by (simp add: confined_ret)
next
  case (Cons x xs)
  show ?case
    by (simp, rule confined_bind [where Q = "\<lambda>_. True"]) (simp_all add: Cons)
qed

lemma confined_deref_zone: "n \<le> a \<Longrightarrow> confined n (deref a) (zobj n)"
  by (auto simp: confined_def deref_def zone_def)

lemma confined_deref_any: "confined n (deref a) (\<lambda>_. True)"
  by (auto simp: confined_def deref_def)

lemma confined_assign: "n \<le> a \<Longrightarrow> zobj n obj \<Longrightarrow> confined n (assign a obj) (\<lambda>_. True)"
  by (auto simp: confined_def assign_def zone_def nth_list_update)

lemma confined_alloc: "zobj n obj \<Longrightarrow> confined n (alloc obj) (zval n)"
  by (auto simp: confined_def alloc_def zone_def nth_append zval_def)

lemma zobj_getitem: "zobj n obj \<Longrightarrow> obj_getitem obj k = Inr v \<Longrightarrow> zval n v"
  by (auto simp: zobj_def obj_vals_def obj_getitem_def list_index_def Let_def
      split: pobj.splits pval.splits option.splits if_splits dest!: map_of_SomeD)

lemma zobj_delete: "zobj n (ODict d) \<Longrightarrow> zobj n (ODict (AList.delete k d))"
  by (auto simp: zobj_def obj_vals_def AList.delete_eq)

lemma update_values: "(k', x) \<in> set (AList.update k v d) \<Longrightarrow> x = v \<or> (k', x) \<in> set d"
  by (induction d) (auto split: if_splits)

lemma zobj_update: "zobj n (ODict d) \<Longrightarrow> zval n v \<Longrightarrow> zobj n (ODict (AList.update k v d))"
  by (auto simp: zobj_def obj_vals_def dest!: update_values)

lemma zval_atoms [simp]:
  "zval n PNull" "zval n (PBool b)" "zval n (PNum i)" "zval n (PFloat m e)" "zval n (PStr s)"
  "zval n (PRef a) \<longleftrightarrow> n \<le> a"
  by (simp_all add: zval_def)

lemma confined_getitem:
  assumes "zval n v"
  shows "confined n (py_getitem v k) (zval n)"
proof (cases v)
  case (PRef a)
  with assms have "n \<le> a" by simp
  then show ?thesis unfolding PRef py_getitem.simps
    by (intro confined_bind [OF confined_deref_zone] confined_lift) (auto dest: zobj_getitem)
next
  case (PStr s)
  show ?thesis unfolding PStr
    by (auto simp: confined_ret confined_raise split: option.splits sum.splits)
qed (simp_all add: confined_raise)

lemma confined_contains: "confined n (py_contains k v) (\<lambda>_. True)"
proof (cases v)
  case (PRef a)
  show ?thesis unfolding PRef py_contains.simps
    by (intro confined_bind [OF confined_deref_any] confined_ret) simp
qed (simp_all add: confined_raise confined_ret)

lemma confined_pop:
  assumes "zval n v"
  shows "confined n (py_pop v k) (zval n)"
proof (cases v)
  case (PRef a)
  with assms have a: "n \<le> a" by simp
  have "confined n (case obj of
         ODict d \<Rightarrow>
           (case map_of d k of
              None \<Rightarrow> raise KeyError
            | Some v \<Rightarrow> bind_prog (assign a (ODict (AList.delete k d))) (\<lambda>_. ret v))
       | OList xs \<Rightarrow> raise TypeError) (zval n)" if "zobj n obj" for obj
  proof (cases obj)
    case (ODict d)
    show ?thesis
    proof (cases "map_of d k")
      case None
      with ODict show ?thesis by (simp add: confined_raise)
    next
      case (Some x)
      from that ODict Some have "zval n x"
        by (auto simp: zobj_def obj_vals_def dest!: map_of_SomeD)
      with that ODict Some a show ?thesis
        by (auto intro!: confined_bind [OF confined_assign] confined_ret zobj_delete)
    qed
  next
    case (OList xs)
    then show ?thesis by (simp add: confined_raise)
  qed
  then show ?thesis unfolding PRef py_pop.simps
    by (intro confined_bind [OF confined_deref_zone [OF a]])
qed (simp_all add: confined_raise)

lemma confined_pop_default:
  assumes "zval n v" and "zval n dflt"
  shows "confined n (py_pop_default v k dflt) (zval n)"
proof (cases v)
  case (PRef a)
  with assms have a: "n \<le> a" by simp
  have "confined n (case obj of
         ODict d \<Rightarrow>
           (case map_of d k of
              None \<Rightarrow> ret dflt
            | Some v \<Rightarrow> bind_prog (assign a (ODict (AList.delete k d))) (\<lambda>_. ret v))
       | OList xs \<Rightarrow> raise TypeError) (zval n)" if "zobj n obj" for obj
  proof (cases obj)
    case (ODict d)
    show ?thesis
    proof (cases "map_of d k")
      case None
      with ODict assms(2) show ?thesis by (simp add: confined_ret)
    next
      case (Some x)
      from that ODict Some have "zval n x"
        by (auto simp: zobj_def obj_vals_def dest!: map_of_SomeD)
      with that ODict Some a show ?thesis
        by (auto intro!: confined_bind [OF confined_assign] confined_ret zobj_delete)
    qed
  next
    case (OList xs)
    then show ?thesis by (simp add: confined_raise)
  qed
  then show ?thesis unfolding PRef py_pop_default.simps
    by (intro confined_bind [OF confined_deref_zone [OF a]])
qed (simp_all add: confined_raise)

lemma confined_setitem:
  assumes "zval n v" and "zval n x"
  shows "confined n (py_setitem v k x) (\<lambda>_. True)"
proof (cases v)
  case (PRef a)
  with assms have a: "n \<le> a" by simp
  have "confined n (case obj of
         ODict d \<Rightarrow> assign a (ODict (AList.update k x d))
       | OList xs \<Rightarrow> raise TypeError) (\<lambda>_. True)" if "zobj n obj" for obj
    using that a assms(2)
    by (cases obj) (auto intro!: confined_assign zobj_update confined_raise)
  then show ?thesis unfolding PRef py_setitem.simps
    by (intro confined_bind [OF confined_deref_zone [OF a]])
qed (simp_all add: confined_raise)

lemma confined_iter:
  assumes "zval n v"
  shows "confined n (py_iter v) (\<lambda>xs. \<forall>x \<in> set xs. zval n x)"
proof (cases v)
  case (PRef a)
  with assms have a: "n \<le> a" by simp
  show ?thesis unfolding PRef py_iter.simps
    by (intro confined_bind [OF confined_deref_zone [OF a]] confined_ret)
       (auto simp: zobj_def obj_vals_def split: pobj.splits)
qed (simp_all add: confined_raise confined_ret)

lemma confined_get_path:
  assumes "zval n v"
  shows "confined n (py_get_path v ks) (zval n)"
  using assms
proof (induction ks arbitrary: v)
  case Nil
  then show ?case by (simp add: confined_ret)
next
  case (Cons k ks)
  show ?case unfolding py_get_path.simps
    by (rule confined_bind [OF confined_getitem [OF Cons.prems]]) (rule Cons.IH)
qed

lemma confined_rewrite_field:
  assumes "zval n v"
  shows "confined n (rewrite_field_in_place v) (\<lambda>_. True)"
  unfolding rewrite_field_in_place_def
  by (intro confined_bind [OF confined_contains] confined_if confined_ret TrueI
        confined_bind [OF confined_get_path [OF assms]]
        confined_bind [OF confined_getitem]
        confined_bind [OF confined_setitem [OF assms]]
        confined_bind [OF confined_pop [OF assms]])

lemma confined_rewrite_format:
  assumes "zval n v"
  shows "confined n (rewrite_format_in_place v) (\<lambda>_. True)"
  unfolding rewrite_format_in_place_def
  by (intro confined_bind [OF confined_getitem [OF assms]]
        confined_bind [OF confined_iter] confined_for_each
        confined_bind [OF confined_getitem] confined_rewrite_field)
     auto

lemma confined_rename_anyOf:
  assumes "zval n v"
  shows "confined n (rename_anyOf_in_place v p) (\<lambda>_. True)"
  unfolding rename_anyOf_in_place_def
  by (intro confined_bind [OF confined_get_path [OF assms]]
        confined_bind [OF confined_pop] confined_setitem)

lemma confined_replace:
  assumes "zval n v"
  shows "confined n (replace_enum_allOf_and_anyOf_in_place v) (zval n)"
  unfolding replace_enum_allOf_and_anyOf_in_place_def
  by (intro confined_bind [OF confined_get_path [OF assms]]
        confined_bind [OF confined_contains]
        confined_bind [where Q = "\<lambda>_. True"] confined_if confined_ret TrueI
        confined_bind [OF confined_getitem]
        confined_bind [OF confined_alloc]
        confined_bind [OF confined_pop_default]
        confined_bind [OF confined_setitem]
        confined_bind [OF confined_get_path]
        confined_bind [OF confined_iter]
        confined_for_each confined_rewrite_format confined_rename_anyOf assms)
     (auto simp: zobj_def obj_vals_def)

lemma confined_add_legacy_format:
  assumes "zval n v"
  shows "confined n (add_legacy_format_in_place v) (zval n)"
  unfolding add_legacy_format_in_place_def
  by (intro confined_bind [OF confined_alloc]
        confined_bind [OF confined_get_path [OF assms]]
        confined_bind [OF confined_setitem] confined_ret assms)
     (auto simp: zobj_def obj_vals_def)

lemma zobj_append: "zobj n (OList ys) \<Longrightarrow> zval n x \<Longrightarrow> zobj n (OList (ys @ [x]))"
  by (auto simp: zobj_def obj_vals_def)

lemma zobj_empty [simp]: "zobj n (OList [])" "zobj n (ODict [])"
  by (simp_all add: zobj_def obj_vals_def)

lemma memo_ok_lookup: "memo_ok n memo \<Longrightarrow> map_of memo a = Some y \<Longrightarrow> n \<le> y"
  by (auto simp: memo_ok_def dest!: map_of_SomeD)

lemma memo_ok_Cons: "memo_ok n memo \<Longrightarrow> n \<le> b \<Longrightarrow> memo_ok n ((a, b) # memo)"
  by (simp add: memo_ok_def)

lemma confined_deepcopy:
  "memo_ok n memo \<Longrightarrow>
     confined n (deepcopy fuel x memo) (\<lambda>r. zval n (fst r) \<and> memo_ok n (snd r))"
  "memo_ok n memo \<Longrightarrow> n \<le> b \<Longrightarrow> confined n (copy_items fuel xs b memo) (memo_ok n)"
  "memo_ok n memo \<Longrightarrow> n \<le> b \<Longrightarrow> confined n (copy_entries fuel d b memo) (memo_ok n)"
proof (induction fuel x memo and fuel xs b memo and fuel d b memo
    rule: deepcopy_copy_items_copy_entries.induct)
  case (1 x memo)
  show ?case by (simp add: confined_raise)
next
  case (2 k x memo)
  show ?case
  proof (cases x)
    case (PRef a)
    show ?thesis
    proof (cases "map_of memo a")
      case (Some y)
      with PRef "2.prems" show ?thesis
        by (auto intro!: confined_ret dest: memo_ok_lookup)
    next
      case None
      have body: "confined n
         (case obj of
            OList xs \<Rightarrow>
              bind_prog (alloc (OList [])) (\<lambda>y.
                case y of
                  PRef b \<Rightarrow> bind_prog (copy_items k xs b ((a, b) # memo)) (\<lambda>memo'. ret (y, memo'))
                | _ \<Rightarrow> raise SystemError)
          | ODict d \<Rightarrow>
              bind_prog (alloc (ODict [])) (\<lambda>y.
                case y of
                  PRef b \<Rightarrow> bind_prog (copy_entries k d b ((a, b) # memo)) (\<lambda>memo'. ret (y, memo'))
                | _ \<Rightarrow> raise SystemError))
         (\<lambda>r. zval n (fst r) \<and> memo_ok n (snd r))" for obj
      proof (cases obj)
        case (OList xs)
        have "confined n (case y of
                  PRef b \<Rightarrow> bind_prog (copy_items k xs b ((a, b) # memo)) (\<lambda>memo'. ret (y, memo'))
                | _ \<Rightarrow> raise SystemError) (\<lambda>r. zval n (fst r) \<and> memo_ok n (snd r))"
          if y: "zval n y" for y
        proof (cases y)
          case (PRef b)
          with y have b: "n \<le> b" by simp
          have "confined n (copy_items k xs b ((a, b) # memo)) (memo_ok n)"
            using "2.IH" \<open>x = PRef a\<close> None memo_ok_Cons [OF "2.prems" b] b
            by blast
          then show ?thesis unfolding PRef pval.case
            by (rule confined_bind) (simp add: confined_ret b)
        qed (simp_all add: confined_raise)
        then show ?thesis unfolding OList pobj.case
          by (intro confined_bind [OF confined_alloc]) simp_all
      next
        case (ODict d)
        have "confined n (case y of
                  PRef b \<Rightarrow> bind_prog (copy_entries k d b ((a, b) # memo)) (\<lambda>memo'. ret (y, memo'))
                | _ \<Rightarrow> raise SystemError) (\<lambda>r. zval n (fst r) \<and> memo_ok n (snd r))"
          if y: "zval n y" for y
        proof (cases y)
          case (PRef b)
          with y have b: "n \<le> b" by simp
          have "confined n (copy_entries k d b ((a, b) # memo)) (memo_ok n)"
            using "2.IH" \<open>x = PRef a\<close> None memo_ok_Cons [OF "2.prems" b] b
            by blast
          then show ?thesis unfolding PRef pval.case
            by (rule confined_bind) (simp add: confined_ret b)
        qed (simp_all add: confined_raise)
        then show ?thesis unfolding ODict pobj.case
          by (intro confined_bind [OF confined_alloc]) simp_all
      qed
      show ?thesis unfolding deepcopy.simps PRef pval.case None option.case
        by (rule confined_bind [OF confined_deref_any]) (rule body)
    qed
  qed (use "2.prems" in \<open>simp_all add: confined_ret\<close>)
next
  case (3 k b memo)
  then show ?case by (simp add: confined_ret)
next
  case (4 k x xs b memo)
  have tail: "confined n (bind_prog (deref b) (\<lambda>obj.
     bind_prog (case obj of OList ys \<Rightarrow> assign b (OList (ys @ [fst r])) | ODict _ \<Rightarrow> raise SystemError) (\<lambda>_.
       copy_items k xs b (snd r)))) (memo_ok n)"
    if r: "zval n (fst r) \<and> memo_ok n (snd r)" for r
  proof (rule confined_bind [OF confined_deref_zone [OF "4.prems"(2)]])
    fix obj assume obj: "zobj n obj"
    have "confined n (case obj of OList ys \<Rightarrow> assign b (OList (ys @ [fst r])) | ODict _ \<Rightarrow> raise SystemError)
            (\<lambda>_. True)"
      using obj r "4.prems"(2)
      by (cases obj) (auto intro!: confined_assign zobj_append confined_raise)
    then show "confined n (bind_prog (case obj of OList ys \<Rightarrow> assign b (OList (ys @ [fst r]))
                 | ODict _ \<Rightarrow> raise SystemError) (\<lambda>_. copy_items k xs b (snd r))) (memo_ok n)"
      by (rule confined_bind) (use "4.IH"(2) r "4.prems"(2) in blast)
  qed
  show ?case unfolding copy_items.simps
    by (rule confined_bind [OF "4.IH"(1) [OF "4.prems"(1)]]) (rule tail)
next
  case (5 k b memo)
  then show ?case by (simp add: confined_ret)
next
  case (6 k kv kvs b memo)
  have tail: "confined n (bind_prog (py_setitem (PRef b) (fst kv) (fst r)) (\<lambda>_.
       copy_entries k kvs b (snd r))) (memo_ok n)"
    if r: "zval n (fst r) \<and> memo_ok n (snd r)" for r
    by (rule confined_bind [OF confined_setitem]) (use "6.IH"(2) r "6.prems"(2) in auto)
  show ?case unfolding copy_entries.simps
    by (rule confined_bind [OF "6.IH"(1) [OF "6.prems"(1)]]) (rule tail)
qed

lemma confined_schema:
  assumes "\<And>v. zval n v \<Longrightarrow> confined n (expand_refs v) (\<lambda>_. True)"
  shows "confined n (schema limit expand_refs raw) (zval n)"
  unfolding schema_def
  by (intro confined_bind [OF confined_deepcopy(1)] confined_bind [OF assms]
        confined_bind [OF confined_replace] confined_bind [OF confined_add_legacy_format]
        confined_ret)
     (simp_all add: memo_ok_def)

lemma zone_start: "zone (length h) h"
  by (simp add: zone_def)

lemma reachable_in_zone:
  assumes "reachable h v a" and "zone n h" and "zval n v"
  shows "n \<le> a"
  using assms
proof (induction rule: reachable.induct)
  case (root a)
  then show ?case by simp
next
  case (step v a b)
  then have "zobj n (h ! a)" by (simp add: zone_def)
  with step.hyps(3) show ?case by (auto simp: zobj_def)
qed

lemma load_frame:
  assumes "closed h" and "take (length h) h' = h"
  shows "valid_val h v \<Longrightarrow> load k h' v = load k h v"
proof (induction k arbitrary: v)
  case 0
  show ?case by simp
next
  case (Suc k)
  show ?case
  proof (cases v)
    case (PRef a)
    with Suc.prems have a: "a < length h" by (simp add: valid_val_def)
    from assms(2) have len: "length h \<le> length h'"
      by (metis length_take min.cobounded1 min.commute)
    from assms(2) a have same: "h' ! a = h ! a"
      by (metis nth_take)
    from assms(1) a have kids: "\<forall>v \<in> obj_vals (h ! a). valid_val h v" by (simp add: closed_def)
    show ?thesis
    proof (cases "h ! a")
      case (OList xs)
      with kids have "map (load k h') xs = map (load k h) xs"
        by (auto simp: obj_vals_def intro!: Suc.IH)
      with PRef a len same OList show ?thesis by (simp del: map_eq_conv)
    next
      case (ODict d)
      with kids have "\<forall>kv \<in> set d. load k h' (snd kv) = load k h (snd kv)"
        by (auto simp: obj_vals_def intro!: Suc.IH)
      then have "map (\<lambda>kv. map_option (Pair (fst kv)) (load k h' (snd kv))) d =
                      map (\<lambda>kv. map_option (Pair (fst kv)) (load k h (snd kv))) d"
        by simp
      with PRef a len same ODict show ?thesis by (simp del: map_eq_conv)
    qed
  qed simp_all
qed

lemma closed_small_heap: "closed small_heap"
  unfolding closed_def small_heap_def
  by (simp add: obj_vals_def valid_val_def nth_Cons' less_Suc_eq all_conj_distrib eval_nat_numeral)

section \<open>The claims\<close>









text \<open>
  Claim C3, as stated, fails: when the format node itself lists \<^verbatim>\<open>filetype\<close> under
  \<^verbatim>\<open>required\<close>, stage 2 succeeds and the first member of the new \<^verbatim>\<open>oneOf\<close> declares
  \<^verbatim>\<open>filetype\<close> as required.
\<close>

theorem first_member_may_require_filetype:
  "replace_enum_allOf_and_anyOf (stream_tree required_format union_in union_in) =
     Inr (stream_tree required_format union_out union_out) \<and>
   add_legacy_format (stream_tree required_format union_out union_out) =
     Inr (stream_tree (JDict [(''oneOf'', JList [required_format, legacy_format_options])]) union_out union_out) \<and>
   get_path (stream_tree (JDict [(''oneOf'', JList [required_format, legacy_format_options])]) union_out union_out)
     (format_path @ [JStr ''oneOf'', JNum 0, JStr ''required'']) = Inr (JList [JStr ''filetype''])"
  by (simp add: model_defs stream_tree_def required_format_def union_in_def union_out_def
      add_legacy_format_def)

text \<open>
  Claim C3, amended: on the result \<open>t2\<close> of a successful stage 2, \<^verbatim>\<open>add_legacy_format\<close>
  returns, and the format node becomes exactly \<^verbatim>\<open>{"oneOf": [F, L]}\<close> with \<open>F\<close> the format
  node of \<open>t2\<close> and \<open>L\<close> the legacy node, whose \<^verbatim>\<open>required\<close> is \<^verbatim>\<open>["filetype"]\<close>. The first
  member is \<open>F\<close> verbatim, so whatever \<open>F\<close> holds (a \<^verbatim>\<open>required\<close> list too) is found
  there unchanged.
\<close>

theorem legacy_union:
  assumes "replace_enum_allOf_and_anyOf t = Inr t2"
  shows "\<exists>F t3. get_path t2 format_path = Inr F \<and> add_legacy_format t2 = Inr t3 \<and>
           get_path t3 format_path = Inr (JDict [(''oneOf'', JList [F, legacy_format_options])]) \<and>
           getitem legacy_format_options (JStr ''required'') = Inr (JList [JStr ''filetype'']) \<and>
           (\<forall>rest. get_path t3 (format_path @ [JStr ''oneOf'', JNum 0] @ rest) = get_path F rest)"
proof -
  from replace_format [OF assms] obtain otc otc' where
    out: "\<And>rest. get_path t2 (format_path @ rest) = get_path otc' rest"
    by blast
  from out [of "[]"] have F: "get_path t2 format_path = Inr otc'" by simp
  let ?t3 = "put_path t2 format_path (JDict [(''oneOf'', JList [otc', legacy_format_options])])"
  have t3: "add_legacy_format t2 = Inr ?t3" by (rule add_legacy_format_result [OF F])
  have get: "get_path ?t3 (format_path @ rest) =
             get_path (JDict [(''oneOf'', JList [otc', legacy_format_options])]) rest" for rest
    using get_put_path_same [of t2 "[''properties'', ''streams'', ''items'', ''properties'', ''format'']"] F
    unfolding format_path_keys by blast
  have "get_path ?t3 format_path = Inr (JDict [(''oneOf'', JList [otc', legacy_format_options])])"
    using get [of "[]"] by simp
  moreover have "getitem legacy_format_options (JStr ''required'') = Inr (JList [JStr ''filetype''])"
    by (simp add: legacy_format_options_def)
  moreover have "\<forall>rest. get_path ?t3 (format_path @ [JStr ''oneOf'', JNum 0] @ rest) = get_path otc' rest"
    using get by (simp add: list_index_def norm_index_def)
  ultimately show ?thesis using F t3 by blast
qed

text \<open>Claim C3, amended, on the example schema.\<close>

theorem legacy_union_witness:
  "replace_enum_allOf_and_anyOf example_in = Inr example_out \<and>
   (\<exists>F t3. get_path example_out format_path = Inr F \<and> add_legacy_format example_out = Inr t3 \<and>
      get_path t3 format_path = Inr (JDict [(''oneOf'', JList [F, legacy_format_options])]))"
proof -
  have run: "replace_enum_allOf_and_anyOf example_in = Inr example_out"
    by (simp add: model_defs example_defs)
  from legacy_union [OF run] run show ?thesis by blast
qed










text \<open>
  Claim C6: \<^verbatim>\<open>schema()\<close> works on a deep copy. Whatever the heap and the raw schema, and
  whether the call returns or raises, every object that existed before the call is
  unchanged, so the raw schema reads back as the same tree; every object the returned
  schema leads to was created by the call, so overwriting any of them afterwards leaves
  the objects of the raw schema as they were. \<^verbatim>\<open>expand_refs\<close> is assumed confined to the
  copy it is given.
\<close>

theorem deep_copy_isolation:
  assumes "\<forall>v. zval (length h) v \<longrightarrow> confined (length h) (expand_refs v) (\<lambda>_. True)"
    and "schema limit expand_refs raw h = (r, h')"
  shows "take (length h) h' = h \<and>
         (closed h \<and> valid_val h raw \<longrightarrow> (\<forall>k. load k h' raw = load k h raw)) \<and>
         (\<forall>out a. r = Inr out \<longrightarrow> reachable h' out a \<longrightarrow>
            length h \<le> a \<and> (\<forall>obj. take (length h) (h'[a := obj]) = h))"
proof -
  from assms(1) have "confined (length h) (schema limit expand_refs raw) (zval (length h))"
    by (intro confined_schema) blast
  note run = confinedD [OF this zone_start assms(2)]
  from run(2) have same: "take (length h) h' = h" by simp
  have "length h \<le> a \<and> (\<forall>obj. take (length h) (h'[a := obj]) = h)"
    if "r = Inr out" "reachable h' out a" for out a
  proof -
    from reachable_in_zone [OF that(2) run(1) run(3) [OF that(1)]] have "length h \<le> a" .
    with same show ?thesis by simp
  qed
  moreover have "load k h' raw = load k h raw" if "closed h" "valid_val h raw" for k
    using load_frame [OF that(1) same that(2)] .
  ultimately show ?thesis using same by blast
qed

text \<open>Claim C6 on the small schema, with a recursion limit of 20.\<close>

theorem deep_copy_isolation_witness:
  "fst (schema 20 no_refs (PRef 9) small_heap) = Inr (PRef 10) \<and>
   take 10 (snd (schema 20 no_refs (PRef 9) small_heap)) = small_heap \<and>
   load 20 small_heap (PRef 9) = Some small_tree \<and>
   load 20 (snd (schema 20 no_refs (PRef 9) small_heap)) (PRef 9) = Some small_tree \<and>
   load 20 (snd (schema 20 no_refs (PRef 9) small_heap)) (PRef 10) = Some small_result \<and>
   reachable (snd (schema 20 no_refs (PRef 9) small_heap)) (PRef 10) 10 \<and>
   take 10 ((snd (schema 20 no_refs (PRef 9) small_heap))[10 := OList []]) = small_heap"
proof -
  let ?h' = "snd (schema 20 no_refs (PRef 9) small_heap)"
  have expand: "\<forall>v. zval (length small_heap) v \<longrightarrow> confined (length small_heap) (no_refs v) (\<lambda>_. True)"
    by (simp add: no_refs_def confined_ret)
  have run: "schema 20 no_refs (PRef 9) small_heap = (fst (schema 20 no_refs (PRef 9) small_heap), ?h')"
    by simp
  have out: "fst (schema 20 no_refs (PRef 9) small_heap) = Inr (PRef 10)"
    by code_simp
  have len: "length small_heap = 10"
    by (simp add: small_heap_def)
  have before: "load 20 small_heap (PRef 9) = Some small_tree"
    by code_simp
  have after: "load 20 ?h' (PRef 10) = Some small_result"
    by code_simp
  have valid: "valid_val small_heap (PRef 9)"
    by (simp add: valid_val_def len)
  have reach: "reachable ?h' (PRef 10) 10"
    by (rule reachable.root)
  from deep_copy_isolation [OF expand run] out len before after closed_small_heap valid reach
  show ?thesis by auto
qed

end
